theory Spec2Isabelle
  imports Main
begin

section \<open>Negotiation Agent: the phase engine of app.py\<close>

text \<open>
  The engine of \<^verbatim>\<open>app.py\<close> is a dispatch over the session's
  \<^verbatim>\<open>negotiation_phase\<close>; each handler returns a dictionary of the keys it wants
  changed, and the HTTP routes merge that dictionary into the stored session. The
  embedding keeps that shape: the session is a record, a handler's dictionary is a record
  of optional keys, a raised exception is the left summand of the handler's result, and
  the clock (\<^verbatim>\<open>datetime.now().isoformat()\<close>) is an argument.

  A Python \<^verbatim>\<open>str\<close> that holds text of the client or for the client is the list
  of its code points (\<open>pystr\<close>); \<open>ascii\<close> turns a literal into one. Names that
  the program only compares (phases, session identifiers, timestamps) stay
  \<open>string\<close>. The interpreter is CPython 3.11 with its defaults: the decimal digits
  are those of Unicode 14.0, and \<^verbatim>\<open>int\<close> refuses a text of more than 4300
  digits.

  Three things are simpler here than in the interpreter, and the text says where. The
  lower case of a character is exact only where it holds an ASCII letter, which is all
  that a test for an ASCII keyword can see. Title case is on ASCII letters only; it
  shapes the wording of the opening message and nothing else. The formatting of an
  integer with thousands separators has no limit, where the interpreter refuses an
  integer of more than 4300 digits. In a session that the routes store, an offer is a
  budget that was formatted when the session started, a ceiling below \<open>2^1024\<close>,
  or a number that \<^verbatim>\<open>int\<close> returned, so the limit is not met there; it is
  met by a budget of more than 4300 digits at the start of a session, which the model
  lets through.
\<close>

subsection \<open>Strings\<close>

type_synonym pystr = "nat list"

definition ascii :: "string \<Rightarrow> pystr" where
  "ascii s = map of_char s"

datatype py_error = ValueError pystr | AttributeError | OverflowError

definition rupee :: pystr where
  "rupee = [0x20B9]"

definition brand_icon :: pystr where
  "brand_icon = [0x1F3E2]"

definition influencer_icon :: pystr where
  "influencer_icon = [0x1F3AD]"

definition newline :: pystr where
  "newline = [0x0A]"

definition is_upper :: "nat \<Rightarrow> bool" where
  "is_upper c = (65 \<le> c \<and> c \<le> 90)"

definition is_lower :: "nat \<Rightarrow> bool" where
  "is_lower c = (97 \<le> c \<and> c \<le> 122)"

text \<open>
  \<^verbatim>\<open>s.lower()\<close>. Outside ASCII, the lower case of exactly two characters holds
  an ASCII letter: U+0130 gives \<^verbatim>\<open>i\<close> and U+0307, and the Kelvin sign U+212A gives
  \<^verbatim>\<open>k\<close>. Every other character outside ASCII is left as it is, where Python may
  give another character outside ASCII.
\<close>

definition lower_char :: "nat \<Rightarrow> pystr" where
  "lower_char c =
     (if is_upper c then [c + 32]
      else if c = 0x130 then [0x69, 0x307]
      else if c = 0x212A then [0x6B]
      else [c])"

definition upper_char :: "nat \<Rightarrow> nat" where
  "upper_char c = (if is_lower c then c - 32 else c)"

definition lower :: "pystr \<Rightarrow> pystr" where
  "lower s = concat (map lower_char s)"

text \<open>\<^verbatim>\<open>sub in s\<close>\<close>

fun contains :: "pystr \<Rightarrow> pystr \<Rightarrow> bool" where
  "contains [] sub = (sub = [])"
| "contains (c # cs) sub = (take (length sub) (c # cs) = sub \<or> contains cs sub)"

text \<open>\<^verbatim>\<open>s.replace("_", " ")\<close>\<close>

definition replace_underscores :: "pystr \<Rightarrow> pystr" where
  "replace_underscores s = map (\<lambda>c. if c = 0x5F then 0x20 else c) s"

text \<open>
  \<^verbatim>\<open>s.title()\<close>: a cased character that follows an uncased one is put in upper
  case, one that follows a cased one in lower case. The flag is Python's
  \<^verbatim>\<open>previous_is_cased\<close>. Only the ASCII letters count as cased here.
\<close>

fun title_from :: "bool \<Rightarrow> pystr \<Rightarrow> pystr" where
  "title_from prev [] = []"
| "title_from prev (c # cs) =
     (if is_lower c then (if prev then c else upper_char c) # title_from True cs
      else if is_upper c then (if prev then c + 32 else c) # title_from True cs
      else c # title_from False cs)"

definition title :: "pystr \<Rightarrow> pystr" where
  "title s = title_from False s"

text \<open>
  The decimal digits of a natural number, and \<^verbatim>\<open>f"{n:,}"\<close> for an integer of at
  most 4300 digits.
\<close>

fun digits :: "nat \<Rightarrow> pystr" where
  "digits n =
     (if n < 10 then [48 + n]
      else digits (n div 10) @ [48 + n mod 10])"

declare digits.simps [simp del]

fun commas_rev :: "pystr \<Rightarrow> pystr" where
  "commas_rev (a # b # c # d # r) = a # b # c # 0x2C # commas_rev (d # r)"
| "commas_rev r = r"

definition format_commas :: "int \<Rightarrow> pystr" where
  "format_commas n =
     (if n < 0 then ascii ''-'' else []) @ rev (commas_rev (rev (digits (nat \<bar>n\<bar>))))"

subsection \<open>Decimal digits\<close>

text \<open>
  \<^verbatim>\<open>\d\<close> in a pattern over \<^verbatim>\<open>str\<close> matches every character of the Unicode
  category Nd, and \<^verbatim>\<open>int\<close> reads each of them by its decimal value. In Unicode
  14.0 these are 66 runs of ten consecutive code points, the digits 0 to 9 in order;
  \<open>digit_zeros\<close> lists the zero of each run.
\<close>

definition digit_zeros :: "nat list" where
  "digit_zeros =
     [48, 1632, 1776, 1984, 2406, 2534, 2662, 2790, 2918, 3046, 3174, 3302, 3430, 3558,
      3664, 3792, 3872, 4160, 4240, 6112, 6160, 6470, 6608, 6784, 6800, 6992, 7088, 7232,
      7248, 42528, 43216, 43264, 43472, 43504, 43600, 44016, 65296, 66720, 68912, 69734,
      69872, 69942, 70096, 70384, 70736, 70864, 71248, 71360, 71472, 71904, 72016, 72784,
      73040, 73120, 92768, 92864, 93008, 120782, 120792, 120802, 120812, 120822, 123200,
      123632, 125264, 130032]"

definition is_digit :: "nat \<Rightarrow> bool" where
  "is_digit c = list_ex (\<lambda>z. z \<le> c \<and> c < z + 10) digit_zeros"

definition digit_value :: "nat \<Rightarrow> nat" where
  "digit_value c =
     (case find (\<lambda>z. z \<le> c \<and> c < z + 10) digit_zeros of
        Some z \<Rightarrow> c - z
      | None \<Rightarrow> 0)"

subsection \<open>The counter-offer pattern\<close>

text \<open>
  \<^verbatim>\<open>re.search\<close> with the pattern of the source: an optional rupee sign, then
  the group \<^verbatim>\<open>(\d+)\<close>. \<open>match_here\<close> is the pattern anchored at the head of the
  text: the optional sign is tried first, and given up again when no digit follows it.
  \<open>re_search\<close> tries every start from the left and returns group 1 of the first
  match.
\<close>

definition match_here :: "pystr \<Rightarrow> pystr option" where
  "match_here s =
     (let t = (if take 1 s = rupee then drop 1 s else s) in
      if takeWhile is_digit t \<noteq> [] then Some (takeWhile is_digit t)
      else if takeWhile is_digit s \<noteq> [] then Some (takeWhile is_digit s)
      else None)"

fun re_search :: "pystr \<Rightarrow> pystr option" where
  "re_search [] = None"
| "re_search (c # cs) =
     (case match_here (c # cs) of Some g \<Rightarrow> Some g | None \<Rightarrow> re_search cs)"

text \<open>
  \<^verbatim>\<open>int(group)\<close> on a run of decimal digits: the value in base 10, or ValueError
  when the run has more than 4300 characters (leading zeros count).
\<close>

definition int_of_digits :: "pystr \<Rightarrow> int" where
  "int_of_digits ds = foldl (\<lambda>a c. 10 * a + int (digit_value c)) 0 ds"

definition int_limit_message :: "nat \<Rightarrow> pystr" where
  "int_limit_message n =
     ascii ''Exceeds the limit (4300 digits) for integer string conversion: value has ''
     @ digits n
     @ ascii '' digits; use sys.set_int_max_str_digits() to increase the limit''"

definition py_int :: "pystr \<Rightarrow> py_error + int" where
  "py_int ds =
     (if 4300 < length ds then Inl (ValueError (int_limit_message (length ds)))
      else Inr (int_of_digits ds))"

text \<open>
  The extraction rule in the words of the specification: the first contiguous run of
  decimal digits, read from the left.
\<close>

definition first_digit_run :: "pystr \<Rightarrow> pystr" where
  "first_digit_run s = takeWhile is_digit (dropWhile (\<lambda>c. \<not> is_digit c) s)"

subsection \<open>Floating point: \<^verbatim>\<open>int(budget * 1.15)\<close>\<close>

text \<open>
  Python converts \<^verbatim>\<open>budget\<close> to a double, multiplies by the double nearest to
  1.15 and truncates. A double has a 53-bit significand and IEEE 754 rounds to the nearest
  one, ties to even; \<open>round53\<close> is that rounding on natural numbers, and scaling by a
  power of two commutes with it. The literal \<^verbatim>\<open>1.15\<close> is the double
  \<open>5179139571476070 / 2^52\<close>. A value that rounds to \<open>2^1024\<close> or more is out
  of range: the conversion of the integer raises OverflowError, and so does
  \<^verbatim>\<open>int\<close> of an infinite product.
\<close>

fun bitlen :: "nat \<Rightarrow> nat" where
  "bitlen n = (if n = 0 then 0 else Suc (bitlen (n div 2)))"

declare bitlen.simps [simp del]

definition round53 :: "nat \<Rightarrow> nat" where
  "round53 n =
     (let l = bitlen n in
      if l \<le> 53 then n
      else
        let s = l - 53; q = n div 2 ^ s; r = n mod 2 ^ s; h = 2 ^ (s - 1) in
        (if h < r \<or> (r = h \<and> odd q) then q + 1 else q) * 2 ^ s)"

definition double_1_15 :: nat where
  "double_1_15 = 5179139571476070"

definition int_times_1_15 :: "int \<Rightarrow> py_error + int" where
  "int_times_1_15 b =
     (let a = round53 (nat \<bar>b\<bar>) in
      if 2 ^ 1024 \<le> a then Inl OverflowError
      else
        let p = round53 (a * double_1_15) in
        if 2 ^ 1076 \<le> p then Inl OverflowError
        else Inr (sgn b * int (p div 2 ^ 52)))"

subsection \<open>The session state and a handler's result\<close>

text \<open>
  \<^verbatim>\<open>NegotiationState\<close>. The routes build every state with all of its keys, and
  the numeric fields hold integers, so \<^verbatim>\<open>state.get(key)\<close> is the field and
  \<^verbatim>\<open>not budget\<close> is \<open>budget = 0\<close>. The route that creates a session
  stores the request's \<^verbatim>\<open>campaign_type\<close> and \<^verbatim>\<open>duration\<close> as they
  come, and the request model declares them \<^verbatim>\<open>Optional[str]\<close>, so both may be
  \<^verbatim>\<open>None\<close>. The key \<^verbatim>\<open>is_complete\<close> is not in the initial
  dictionary; the merge of a handler's result adds it.
\<close>

record NegotiationState =
  messages :: "pystr list"
  budget :: int
  campaign_type :: "pystr option"
  duration :: "pystr option"
  brand_offer :: int
  influencer_offer :: int
  agreed_price :: "int option"
  negotiation_phase :: string
  negotiation_rounds :: int
  user_input :: pystr
  session_id :: string
  created_at :: string
  last_activity :: string
  is_complete :: "bool option"

text \<open>
  The dictionary a handler returns: a key that is absent is \<open>None\<close>. The value of
  \<^verbatim>\<open>agreed_price\<close> may itself be \<^verbatim>\<open>None\<close>, hence the nested option.
\<close>

record StepResult =
  res_messages :: "pystr list option"
  res_brand_offer :: "int option"
  res_influencer_offer :: "int option"
  res_agreed_price :: "int option option"
  res_negotiation_phase :: "string option"
  res_negotiation_rounds :: "int option"
  res_bot_response :: "pystr option"
  res_options :: "pystr list option"
  res_is_complete :: "bool option"
  res_last_activity :: "string option"

definition empty_result :: StepResult where
  "empty_result =
     \<lparr>res_messages = None, res_brand_offer = None, res_influencer_offer = None,
      res_agreed_price = None, res_negotiation_phase = None, res_negotiation_rounds = None,
      res_bot_response = None, res_options = None, res_is_complete = None,
      res_last_activity = None\<rparr>"

subsection \<open>The phase handlers\<close>

definition brand_says :: "pystr \<Rightarrow> pystr" where
  "brand_says t = brand_icon @ ascii '' Brand: '' @ t"

definition influencer_says :: "pystr \<Rightarrow> pystr" where
  "influencer_says t = influencer_icon @ ascii '' Influencer: '' @ t"

definition price :: "int \<Rightarrow> pystr" where
  "price n = rupee @ format_commas n"

definition brand_initial_offer :: "string \<Rightarrow> NegotiationState \<Rightarrow> py_error + StepResult" where
  "brand_initial_offer now state =
     (if budget state = 0 then Inl (ValueError (ascii ''Missing budget in state''))
      else case campaign_type state of
        None \<Rightarrow> Inl AttributeError
      | Some ct \<Rightarrow>
         (case duration state of
            None \<Rightarrow> Inl AttributeError
          | Some du \<Rightarrow>
             (let campaign_display = title (replace_underscores ct);
                  duration_display = title (replace_underscores du);
                  response =
                    brand_says (ascii ''Hello! We're excited to work with you on our ''
                      @ campaign_display @ ascii '' campaign.'') @ newline
                    @ brand_says (ascii ''This is a '' @ duration_display
                      @ ascii '' campaign, and our budget is '' @ price (budget state)
                      @ ascii ''.'')
                    @ newline
                    @ brand_says (ascii ''What are your thoughts on this collaboration?'')
              in Inr (empty_result
                   \<lparr>res_messages := Some [ascii ''Brand offers '' @ price (budget state)
                       @ ascii '' for '' @ campaign_display @ ascii '' campaign (''
                       @ duration_display @ ascii '')''],
                    res_brand_offer := Some (budget state),
                    res_negotiation_phase := Some ''waiting_for_influencer_response'',
                    res_negotiation_rounds := Some (negotiation_rounds state + 1),
                    res_bot_response := Some response,
                    res_options := Some [ascii ''Accept the offer'',
                       ascii ''Counter with your price'', ascii ''Ask about campaign details''],
                    res_last_activity := Some now\<rparr>))))"

definition accepts :: "pystr \<Rightarrow> bool" where
  "accepts inp =
     (contains (lower inp) (ascii ''accept'') \<or> contains (lower inp) (ascii ''yes''))"

definition asks_details :: "pystr \<Rightarrow> bool" where
  "asks_details inp =
     list_ex (\<lambda>word. contains (lower inp) word)
       [ascii ''campaign'', ascii ''what'', ascii ''about'', ascii ''details'', ascii ''?'']"

definition handle_influencer_response ::
  "string \<Rightarrow> NegotiationState \<Rightarrow> py_error + StepResult" where
  "handle_influencer_response now state =
     (let brand_offer = brand_offer state;
          user_input = user_input state;
          rounds = negotiation_rounds state
      in
      if accepts user_input then
        Inr (empty_result
          \<lparr>res_messages := Some [ascii ''Influencer accepts '' @ price brand_offer],
           res_agreed_price := Some (Some brand_offer),
           res_negotiation_phase := Some ''completed'',
           res_negotiation_rounds := Some (rounds + 1),
           res_bot_response := Some
             (influencer_says
                (ascii ''I accept your offer of '' @ price brand_offer @ ascii ''!'')
              @ newline @ brand_says (ascii ''Excellent! We have a deal!'')),
           res_is_complete := Some True,
           res_last_activity := Some now\<rparr>)
      else case re_search user_input of
        Some g \<Rightarrow>
          (case py_int g of
             Inl e \<Rightarrow> Inl e
           | Inr counter_offer \<Rightarrow>
               Inr (empty_result
                 \<lparr>res_messages :=
                    Some [ascii ''Influencer counters with '' @ price counter_offer],
                  res_influencer_offer := Some counter_offer,
                  res_negotiation_phase := Some ''brand_considering'',
                  res_negotiation_rounds := Some (rounds + 1),
                  res_bot_response := Some
                    (influencer_says (ascii ''I was thinking more along the lines of ''
                       @ price counter_offer @ ascii ''.'')
                     @ newline @ brand_says (ascii ''Let me consider your offer...'')),
                  res_last_activity := Some now\<rparr>))
      | None \<Rightarrow>
          if asks_details user_input then
            (case campaign_type state of
               None \<Rightarrow> Inl AttributeError
             | Some ct \<Rightarrow>
                (case duration state of
                   None \<Rightarrow> Inl AttributeError
                 | Some du \<Rightarrow>
                    Inr (empty_result
                      \<lparr>res_messages := Some [ascii ''Brand explains campaign details''],
                       res_negotiation_phase := Some ''waiting_for_decision'',
                       res_negotiation_rounds := Some (rounds + 1),
                       res_bot_response := Some
                         (brand_says (ascii ''This is a '' @ replace_underscores ct
                            @ ascii '' campaign for our new product launch.'') @ newline
                          @ brand_says (ascii ''Duration: '' @ replace_underscores du
                            @ ascii '', with authentic content in your style.'') @ newline
                          @ brand_says
                              (ascii ''We need 3-5 posts showcasing our product naturally.'')
                          @ newline
                          @ brand_says (ascii ''So, what do you think about our offer of ''
                            @ price brand_offer @ ascii ''?'')),
                       res_options := Some [ascii ''Accept '' @ price brand_offer,
                          ascii ''Make counter-offer'', ascii ''Need more details''],
                       res_last_activity := Some now\<rparr>)))
          else
            Inr (empty_result
              \<lparr>res_messages := Some [ascii ''Brand asks for clarification''],
               res_negotiation_phase := Some ''waiting_for_decision'',
               res_negotiation_rounds := Some (rounds + 1),
               res_bot_response := Some
                 (brand_says (ascii ''I'd like to understand your position better. ''
                    @ ascii ''Are you interested in accepting '' @ price brand_offer
                    @ ascii '', or do you have a different rate in mind?'')),
               res_options := Some [ascii ''Accept '' @ price brand_offer,
                  ascii ''Make counter-offer''],
               res_last_activity := Some now\<rparr>))"

definition brand_considers_counter ::
  "string \<Rightarrow> NegotiationState \<Rightarrow> py_error + StepResult" where
  "brand_considers_counter now state =
     (let influencer_offer = influencer_offer state;
          budget = budget state;
          rounds = negotiation_rounds state
      in
      if influencer_offer = 0 \<or> budget = 0 then
        Inr (empty_result\<lparr>res_negotiation_phase := Some ''error''\<rparr>)
      else case int_times_1_15 budget of
        Inl e \<Rightarrow> Inl e
      | Inr max_budget \<Rightarrow>
          if influencer_offer \<le> budget then
            Inr (empty_result
              \<lparr>res_messages := Some [ascii ''Brand accepts '' @ price influencer_offer],
               res_agreed_price := Some (Some influencer_offer),
               res_negotiation_phase := Some ''completed'',
               res_negotiation_rounds := Some (rounds + 1),
               res_bot_response := Some
                 (brand_says (price influencer_offer
                    @ ascii '' works perfectly for us! Let's proceed with the collaboration.'')),
               res_is_complete := Some True,
               res_last_activity := Some now\<rparr>)
          else if influencer_offer \<le> max_budget then
            Inr (empty_result
              \<lparr>res_messages := Some [ascii ''Brand accepts '' @ price influencer_offer],
               res_agreed_price := Some (Some influencer_offer),
               res_negotiation_phase := Some ''completed'',
               res_negotiation_rounds := Some (rounds + 1),
               res_bot_response := Some
                 (brand_says (price influencer_offer
                    @ ascii '' is a bit higher than our initial budget, but we really like ''
                    @ ascii ''your content. We can agree to '' @ price influencer_offer
                    @ ascii ''!'')),
               res_is_complete := Some True,
               res_last_activity := Some now\<rparr>)
          else
            (let final_offer = max_budget in
             Inr (empty_result
               \<lparr>res_messages := Some [ascii ''Brand's final offer: '' @ price final_offer],
                res_brand_offer := Some final_offer,
                res_negotiation_phase := Some ''final_decision'',
                res_negotiation_rounds := Some (rounds + 1),
                res_bot_response := Some
                  (brand_says (price influencer_offer
                     @ ascii '' is beyond our current budget. The highest we can go is ''
                     @ price final_offer @ ascii ''. This is our final offer.'')),
                res_options := Some [ascii ''Accept final offer'', ascii ''Decline offer''],
                res_last_activity := Some now\<rparr>)))"

definition handle_final_decision ::
  "string \<Rightarrow> NegotiationState \<Rightarrow> py_error + StepResult" where
  "handle_final_decision now state =
     (let final_offer = brand_offer state;
          user_input = user_input state;
          rounds = negotiation_rounds state
      in
      if accepts user_input then
        Inr (empty_result
          \<lparr>res_messages :=
             Some [ascii ''Influencer accepts final offer of '' @ price final_offer],
           res_agreed_price := Some (Some final_offer),
           res_negotiation_phase := Some ''completed'',
           res_negotiation_rounds := Some (rounds + 1),
           res_bot_response := Some
             (influencer_says (ascii ''Yes, I'll accept '' @ price final_offer @ ascii ''!'')
              @ newline
              @ brand_says
                  (ascii ''Excellent! We have a deal at '' @ price final_offer @ ascii ''!'')),
           res_is_complete := Some True,
           res_last_activity := Some now\<rparr>)
      else
        Inr (empty_result
          \<lparr>res_messages := Some [ascii ''Negotiation failed - no agreement reached''],
           res_agreed_price := Some None,
           res_negotiation_phase := Some ''failed'',
           res_negotiation_rounds := Some (rounds + 1),
           res_bot_response := Some
             (influencer_says (ascii ''I appreciate the offer, but I can't accept ''
                @ price final_offer @ ascii ''.'') @ newline
              @ brand_says (ascii ''We understand. Unfortunately, we can't go higher. ''
                @ ascii ''Thanks for considering!'')),
           res_is_complete := Some True,
           res_last_activity := Some now\<rparr>))"

text \<open>Process one step of negotiation: the dispatch over the phase.\<close>

definition process_negotiation_step ::
  "string \<Rightarrow> NegotiationState \<Rightarrow> py_error + StepResult" where
  "process_negotiation_step now state =
     (let phase = negotiation_phase state in
      if phase = ''initial'' then brand_initial_offer now state
      else if phase \<in> set [''waiting_for_influencer_response'', ''waiting_for_decision'']
        then handle_influencer_response now state
      else if phase = ''brand_considering'' then brand_considers_counter now state
      else if phase = ''final_decision'' then handle_final_decision now state
      else Inr (empty_result
             \<lparr>res_negotiation_phase := Some ''error'',
              res_bot_response :=
                Some (ascii ''Something went wrong. Please start over.'')\<rparr>))"

subsection \<open>The routes\<close>

text \<open>
  The loop of both routes that copies every key of the result into the session, except
  \<^verbatim>\<open>bot_response\<close> and \<^verbatim>\<open>options\<close>. A key the result does not have leaves
  the session's value as it is.
\<close>

definition apply_result :: "NegotiationState \<Rightarrow> StepResult \<Rightarrow> NegotiationState" where
  "apply_result state result =
     state
      \<lparr>messages := (case res_messages result of Some v \<Rightarrow> v | None \<Rightarrow> messages state),
       brand_offer :=
         (case res_brand_offer result of Some v \<Rightarrow> v | None \<Rightarrow> brand_offer state),
       influencer_offer :=
         (case res_influencer_offer result of Some v \<Rightarrow> v | None \<Rightarrow> influencer_offer state),
       agreed_price :=
         (case res_agreed_price result of Some v \<Rightarrow> v | None \<Rightarrow> agreed_price state),
       negotiation_phase :=
         (case res_negotiation_phase result of Some v \<Rightarrow> v
          | None \<Rightarrow> negotiation_phase state),
       negotiation_rounds :=
         (case res_negotiation_rounds result of Some v \<Rightarrow> v
          | None \<Rightarrow> negotiation_rounds state),
       is_complete :=
         (case res_is_complete result of Some v \<Rightarrow> Some v | None \<Rightarrow> is_complete state),
       last_activity :=
         (case res_last_activity result of Some v \<Rightarrow> v | None \<Rightarrow> last_activity state)\<rparr>"

record NegotiationStart =
  req_budget :: int
  req_campaign_type :: "pystr option"
  req_duration :: "pystr option"

record UserResponse =
  req_session_id :: string
  req_message :: pystr

record Session =
  sess_state :: NegotiationState
  sess_created_at :: string

record Reply =
  rep_session_id :: string
  rep_type :: string
  rep_content :: pystr
  rep_options :: "pystr list"
  rep_state :: NegotiationState
  rep_is_complete :: bool

datatype http = Ok Reply | NotFound | ServerError py_error

definition reply_of :: "string \<Rightarrow> StepResult \<Rightarrow> NegotiationState \<Rightarrow> Reply" where
  "reply_of sid result state =
     \<lparr>rep_session_id = sid,
      rep_type = ''message'',
      rep_content = (case res_bot_response result of Some v \<Rightarrow> v | None \<Rightarrow> []),
      rep_options = (case res_options result of Some v \<Rightarrow> v | None \<Rightarrow> []),
      rep_state = state,
      rep_is_complete = (case res_is_complete result of Some v \<Rightarrow> v | None \<Rightarrow> False)\<rparr>"

text \<open>
  \<^verbatim>\<open>POST /start-negotiation\<close>. \<open>sid\<close> is the fresh identifier and \<open>clock k\<close>
  the \<open>k\<close>-th reading of the clock during the call. The session is stored only when
  the first step returns.
\<close>

definition initial_state :: "string \<Rightarrow> (nat \<Rightarrow> string) \<Rightarrow> NegotiationStart \<Rightarrow> NegotiationState" where
  "initial_state sid clock request =
     \<lparr>messages = [],
      budget = req_budget request,
      campaign_type = req_campaign_type request,
      duration = req_duration request,
      brand_offer = 0,
      influencer_offer = 0,
      agreed_price = None,
      negotiation_phase = ''initial'',
      negotiation_rounds = 0,
      user_input = [],
      session_id = sid,
      created_at = clock 0,
      last_activity = clock 1,
      is_complete = None\<rparr>"

definition start_negotiation ::
  "string \<Rightarrow> (nat \<Rightarrow> string) \<Rightarrow> (string \<rightharpoonup> Session) \<Rightarrow> NegotiationStart
     \<Rightarrow> (string \<rightharpoonup> Session) \<times> http" where
  "start_negotiation sid clock active_sessions request =
     (let state0 = initial_state sid clock request in
      case process_negotiation_step (clock 2) state0 of
        Inl e \<Rightarrow> (active_sessions, ServerError e)
      | Inr result \<Rightarrow>
          (let state1 = apply_result state0 result in
           (active_sessions(sid \<mapsto> \<lparr>sess_state = state1, sess_created_at = clock 3\<rparr>),
            Ok (reply_of sid result state1))))"

text \<open>
  \<^verbatim>\<open>POST /respond\<close>. The stored dictionary is updated in place, so the two
  assignments before the \<^verbatim>\<open>try\<close> stay when the step raises.
\<close>

definition respond_to_negotiation ::
  "(nat \<Rightarrow> string) \<Rightarrow> (string \<rightharpoonup> Session) \<Rightarrow> UserResponse
     \<Rightarrow> (string \<rightharpoonup> Session) \<times> http" where
  "respond_to_negotiation clock active_sessions request =
     (case active_sessions (req_session_id request) of
        None \<Rightarrow> (active_sessions, NotFound)
      | Some session \<Rightarrow>
          (let state0 = (sess_state session)
                 \<lparr>user_input := req_message request, last_activity := clock 0\<rparr>
           in
           case process_negotiation_step (clock 1) state0 of
             Inl e \<Rightarrow>
               (active_sessions(req_session_id request \<mapsto> session\<lparr>sess_state := state0\<rparr>),
                ServerError e)
           | Inr result \<Rightarrow>
               (let state1 = apply_result state0 result in
                (active_sessions(req_session_id request \<mapsto> session\<lparr>sess_state := state1\<rparr>),
                 Ok (reply_of (req_session_id request) result state1)))))"

subsection \<open>Client turns\<close>

text \<open>
  A conversation after its start: the client's calls of \<^verbatim>\<open>/respond\<close> in order,
  each with its own clock readings, and the replies they get.
\<close>

definition succeeded :: "http \<Rightarrow> bool" where
  "succeeded h = (case h of Ok reply \<Rightarrow> True | NotFound \<Rightarrow> False | ServerError e \<Rightarrow> False)"

fun client_turns ::
  "(string \<rightharpoonup> Session) \<Rightarrow> ((nat \<Rightarrow> string) \<times> UserResponse) list
     \<Rightarrow> (string \<rightharpoonup> Session) \<times> http list" where
  "client_turns active_sessions [] = (active_sessions, [])"
| "client_turns active_sessions ((clock, request) # rest) =
     (case respond_to_negotiation clock active_sessions request of
        (sessions1, reply) \<Rightarrow>
          (case client_turns sessions1 rest of
             (sessions2, replies) \<Rightarrow> (sessions2, reply # replies)))"

subsection \<open>The properties the specification names\<close>

text \<open>\<^verbatim>\<open>agreedPrice\<close> is non-null iff the phase is \<^verbatim>\<open>Completed\<close>.\<close>

definition price_invariant :: "NegotiationState \<Rightarrow> bool" where
  "price_invariant state =
     ((agreed_price state \<noteq> None) = (negotiation_phase state = ''completed''))"

text \<open>The fields the specification calls immutable.\<close>

definition fixed_fields ::
  "NegotiationState \<Rightarrow> int \<times> pystr option \<times> pystr option \<times> string" where
  "fixed_fields state =
     (budget state, campaign_type state, duration state, session_id state)"

text \<open>The two phases in which the engine waits for the influencer's message.\<close>

definition waiting :: "NegotiationState \<Rightarrow> bool" where
  "waiting state =
     (negotiation_phase state = ''waiting_for_influencer_response''
      \<or> negotiation_phase state = ''waiting_for_decision'')"

subsection \<open>A sample conversation\<close>

text \<open>
  Concrete inputs for the examples of the specification: a request with the default
  campaign and duration, a clock that always reads the same instant, the store after
  \<^verbatim>\<open>/start-negotiation\<close> and after a list of messages sent to
  \<^verbatim>\<open>/respond\<close>, and a session in a given phase.
\<close>

definition sample_request :: "int \<Rightarrow> NegotiationStart" where
  "sample_request b =
     \<lparr>req_budget = b, req_campaign_type = Some (ascii ''social_media''),
      req_duration = Some (ascii ''2_weeks'')\<rparr>"

definition sample_clock :: "nat \<Rightarrow> string" where
  "sample_clock k = ''2025-06-01T12:00:00''"

definition says :: "pystr \<Rightarrow> (nat \<Rightarrow> string) \<times> UserResponse" where
  "says msg = (sample_clock, \<lparr>req_session_id = ''s1'', req_message = msg\<rparr>)"

definition sample_store :: "int \<Rightarrow> pystr list \<Rightarrow> (string \<rightharpoonup> Session)" where
  "sample_store b msgs =
     fst (client_turns
            (fst (start_negotiation ''s1'' sample_clock Map.empty (sample_request b)))
            (map says msgs))"

definition sample_session :: "int \<Rightarrow> pystr list \<Rightarrow> NegotiationState option" where
  "sample_session b msgs = map_option sess_state (sample_store b msgs ''s1'')"

definition session_in ::
  "string \<Rightarrow> int \<Rightarrow> int \<Rightarrow> int \<Rightarrow> pystr \<Rightarrow> NegotiationState" where
  "session_in phase b offer counter msg =
     \<lparr>messages = [],
      budget = b,
      campaign_type = Some (ascii ''social_media''),
      duration = Some (ascii ''2_weeks''),
      brand_offer = offer,
      influencer_offer = counter,
      agreed_price = None,
      negotiation_phase = phase,
      negotiation_rounds = 1,
      user_input = msg,
      session_id = ''s1'',
      created_at = sample_clock 0,
      last_activity = sample_clock 0,
      is_complete = None\<rparr>"

text \<open>A store that holds one session.\<close>

definition store_of :: "NegotiationState \<Rightarrow> (string \<rightharpoonup> Session)" where
  "store_of state =
     [session_id state \<mapsto> \<lparr>sess_state = state, sess_created_at = created_at state\<rparr>]"

section \<open>Lemmas\<close>

subsection \<open>The pattern finds the first run of digits\<close>

lemma rupee_sign_not_digit: "\<not> is_digit 0x20B9"
  by (simp add: is_digit_def digit_zeros_def)

lemma rupee_not_digit:
  "takeWhile is_digit (rupee @ t) = []"
  "dropWhile (\<lambda>c. \<not> is_digit c) (rupee @ t) = dropWhile (\<lambda>c. \<not> is_digit c) t"
  using rupee_sign_not_digit by (simp_all add: rupee_def)

lemma match_here_digit:
  assumes "is_digit c"
  shows "match_here (c # cs) = Some (takeWhile is_digit (c # cs))"
proof -
  have "c \<noteq> 0x20B9" using assms rupee_sign_not_digit by auto
  with assms show ?thesis by (simp add: match_here_def rupee_def)
qed

lemma first_digit_run_Cons:
  "first_digit_run (c # cs) =
     (if is_digit c then takeWhile is_digit (c # cs) else first_digit_run cs)"
  by (simp add: first_digit_run_def)

lemma first_digit_run_head:
  "takeWhile is_digit t \<noteq> [] \<Longrightarrow> first_digit_run t = takeWhile is_digit t"
  by (cases t) (auto simp: first_digit_run_def split: if_splits)

lemma first_digit_run_digit: "first_digit_run s \<noteq> [] \<Longrightarrow> \<exists>c\<in>set s. is_digit c"
  by (induction s) (auto simp: first_digit_run_Cons first_digit_run_def split: if_splits)

lemma match_here_Some:
  assumes "match_here s = Some g"
  shows "g = first_digit_run s \<and> g \<noteq> []"
proof (cases "take 1 s = rupee")
  case True
  then have eq: "s = rupee @ drop 1 s"
    by (metis append_take_drop_id)
  have run: "first_digit_run s = first_digit_run (drop 1 s)"
    by (subst eq) (simp add: first_digit_run_def rupee_not_digit)
  have none: "takeWhile is_digit s = []"
    by (subst eq) (simp add: rupee_not_digit)
  from assms True none
  have "takeWhile is_digit (drop 1 s) \<noteq> [] \<and> g = takeWhile is_digit (drop 1 s)"
    by (simp add: match_here_def Let_def split: if_splits)
  then show ?thesis
    using run first_digit_run_head by simp
next
  case False
  with assms have "takeWhile is_digit s \<noteq> [] \<and> g = takeWhile is_digit s"
    by (simp add: match_here_def split: if_splits)
  then show ?thesis
    using first_digit_run_head by simp
qed

lemma match_here_None: "match_here (c # cs) = None \<Longrightarrow> \<not> is_digit c"
  using match_here_digit by fastforce

lemma re_search_first_digit_run:
  "re_search s = (if \<exists>c\<in>set s. is_digit c then Some (first_digit_run s) else None)"
proof (induction s)
  case Nil
  show ?case by simp
next
  case (Cons c cs)
  show ?case
  proof (cases "match_here (c # cs)")
    case None
    then have "\<not> is_digit c" by (rule match_here_None)
    with None Cons show ?thesis
      by (simp add: first_digit_run_Cons)
  next
    case (Some g)
    then have g: "g = first_digit_run (c # cs)" "g \<noteq> []"
      using match_here_Some by blast+
    then have "\<exists>x\<in>set (c # cs). is_digit x"
      using first_digit_run_digit by blast
    with Some g show ?thesis by simp
  qed
qed

text \<open>\<open>int_of_digits\<close> reads base 10: it inverts the decimal notation.\<close>

lemma digit_value_ascii: "d < 10 \<Longrightarrow> digit_value (48 + d) = d"
  by (simp add: digit_value_def digit_zeros_def)

lemma int_of_digits_snoc:
  "int_of_digits (ds @ [c]) = 10 * int_of_digits ds + int (digit_value c)"
  by (simp add: int_of_digits_def)

lemma int_of_digits_digits: "int_of_digits (digits n) = int n"
proof (induction n rule: digits.induct)
  case (1 n)
  show ?case
  proof (cases "n < 10")
    case True
    then show ?thesis
      by (subst digits.simps) (simp add: int_of_digits_def digit_value_ascii)
  next
    case False
    have m: "n mod 10 < 10" by simp
    have "int_of_digits (digits n) = 10 * int (n div 10) + int (n mod 10)"
      using False 1 m
      by (subst digits.simps) (simp add: int_of_digits_snoc digit_value_ascii)
    then show ?thesis by (simp add: of_nat_div of_nat_mod)
  qed
qed

subsection \<open>Rounding to a double\<close>

lemma bitlen_upper: "n < 2 ^ bitlen n"
proof (induction n rule: bitlen.induct)
  case (1 n)
  show ?case
  proof (cases "n = 0")
    case True
    then show ?thesis by (simp add: bitlen.simps)
  next
    case False
    with 1 have "n div 2 < 2 ^ bitlen (n div 2)" by simp
    then have "n < 2 * 2 ^ bitlen (n div 2)" by linarith
    with False show ?thesis by (subst bitlen.simps) simp
  qed
qed

lemma bitlen_lower: "n \<noteq> 0 \<Longrightarrow> 2 ^ (bitlen n - 1) \<le> n"
proof (induction n rule: bitlen.induct)
  case (1 n)
  then have n: "n \<noteq> 0" by simp
  have step: "bitlen n - 1 = bitlen (n div 2)"
    using n by (subst bitlen.simps) simp
  show ?case
  proof (cases "n div 2 = 0")
    case True
    then show ?thesis using n step by (simp add: bitlen.simps)
  next
    case False
    with 1 n have ih: "2 ^ (bitlen (n div 2) - 1) \<le> n div 2" by simp
    from False have "bitlen (n div 2) \<noteq> 0" by (subst bitlen.simps) simp
    then have "(2::nat) ^ bitlen (n div 2) = 2 * 2 ^ (bitlen (n div 2) - 1)"
      by (cases "bitlen (n div 2)") simp_all
    with ih have "(2::nat) ^ bitlen (n div 2) \<le> 2 * (n div 2)" by simp
    also have "\<dots> \<le> n" by simp
    finally show ?thesis using step by simp
  qed
qed

lemma bitlen_small: "n < 2 ^ k \<Longrightarrow> bitlen n \<le> k"
proof (cases "n = 0")
  case True
  then show ?thesis by (simp add: bitlen.simps)
next
  case False
  assume "n < 2 ^ k"
  with bitlen_lower [OF False] have "(2::nat) ^ (bitlen n - 1) < 2 ^ k"
    by (rule le_less_trans)
  then have "bitlen n - 1 < k" by simp
  then show ?thesis by simp
qed

lemma round53_exact: "n < 2 ^ 53 \<Longrightarrow> round53 n = n"
  using bitlen_small [of n 53] by (simp add: round53_def)

lemma round53_upper: "round53 n \<le> 2 * n"
proof (cases "bitlen n \<le> 53")
  case True
  then show ?thesis by (simp add: round53_def)
next
  case False
  define s where "s = bitlen n - 53"
  define q where "q = n div 2 ^ s"
  have n0: "n \<noteq> 0" using False by (cases "n = 0") (simp_all add: bitlen.simps)
  have "round53 n \<le> (q + 1) * 2 ^ s"
    using False by (simp add: round53_def Let_def s_def q_def)
  also have "\<dots> = q * 2 ^ s + 2 ^ s" by simp
  also have "q * 2 ^ s \<le> n" by (simp add: q_def)
  also have "(2::nat) ^ s \<le> 2 ^ (bitlen n - 1)"
    by (rule power_increasing) (simp_all add: s_def)
  also have "\<dots> \<le> n" by (rule bitlen_lower [OF n0])
  finally show ?thesis by simp
qed

lemma round53_lower: "n * (2 ^ 53 - 1) \<le> round53 n * 2 ^ 53"
proof (cases "bitlen n \<le> 53")
  case True
  then show ?thesis by (simp add: round53_def)
next
  case False
  define s where "s = bitlen n - 53"
  define q where "q = n div 2 ^ s"
  define r where "r = n mod 2 ^ s"
  define h where "h = (2::nat) ^ (s - 1)"
  have n0: "n \<noteq> 0" using False by (cases "n = 0") (simp_all add: bitlen.simps)
  have n: "n = q * 2 ^ s + r" unfolding q_def r_def by (rule div_mult_mod_eq [symmetric])
  have r: "r < 2 ^ s" by (simp add: r_def)
  have "(s - 1) + 53 = bitlen n - 1" using False by (simp add: s_def)
  then have "h * 2 ^ 53 = 2 ^ (bitlen n - 1)"
    unfolding h_def by (metis power_add)
  then have h: "h * 2 ^ 53 \<le> n" using bitlen_lower [OF n0] by simp
  have val: "round53 n = (if h < r \<or> (r = h \<and> odd q) then q + 1 else q) * 2 ^ s"
    using False by (simp add: round53_def Let_def s_def q_def r_def h_def)
  show ?thesis
  proof (cases "h < r \<or> (r = h \<and> odd q)")
    case True
    with val have "round53 n = q * 2 ^ s + 2 ^ s" by simp
    with n r have "n \<le> round53 n" by simp
    then have "n * 2 ^ 53 \<le> round53 n * 2 ^ 53" by simp
    moreover have "n * (2 ^ 53 - 1) \<le> n * 2 ^ 53" by simp
    ultimately show ?thesis by (rule_tac order_trans)
  next
    case False
    with val have v: "round53 n = q * 2 ^ s" by simp
    from False have "r \<le> h" by auto
    with n v have "n \<le> round53 n + h" by simp
    then have "n * 2 ^ 53 \<le> (round53 n + h) * 2 ^ 53" by simp
    also have "\<dots> = round53 n * 2 ^ 53 + h * 2 ^ 53" by (simp add: algebra_simps)
    also have "\<dots> \<le> round53 n * 2 ^ 53 + n" using h by simp
    finally have "n * 2 ^ 53 - n \<le> round53 n * 2 ^ 53" by simp
    then show ?thesis by (simp add: algebra_simps)
  qed
qed


lemma int_times_1_15_in_range:
  assumes "\<bar>b\<bar> < 2 ^ 1000"
  shows "\<exists>m. int_times_1_15 b = Inr m"
proof -
  define a where "a = round53 (nat \<bar>b\<bar>)"
  define p where "p = round53 (a * double_1_15)"
  have "nat \<bar>b\<bar> < 2 ^ 1000" using assms by (simp add: nat_less_iff)
  then have "2 * nat \<bar>b\<bar> < 2 ^ 1001" by simp
  with round53_upper [of "nat \<bar>b\<bar>"] have a: "a < 2 ^ 1001"
    unfolding a_def by (rule le_less_trans)
  from a have "2 * (a * double_1_15) < 2 ^ 1055"
    by (simp add: double_1_15_def)
  with round53_upper [of "a * double_1_15"] have "p < 2 ^ 1055"
    unfolding p_def by (rule le_less_trans)
  also have "(2::nat) ^ 1055 < 2 ^ 1076" by (rule power_strict_increasing) simp_all
  finally have p: "p < 2 ^ 1076" .
  have "a < 2 ^ 1024"
    using a power_strict_increasing [of 1001 1024 "2::nat"] by simp
  with p show ?thesis
    by (simp add: int_times_1_15_def Let_def a_def [symmetric] p_def [symmetric])
qed

lemma stretch_arith:
  fixes b p q k :: int
  assumes low: "b * 5179139571476070 * 9007199254740991 \<le> p * 9007199254740992"
   and q: "p < (q + 1) * 4503599627370496"
   and k: "k * 100 \<le> b * 115"
   and b: "b \<le> 1000000000000000"
  shows "k - 1 \<le> q"
proof (rule ccontr)
  assume "\<not> k - 1 \<le> q"
  then have "q + 2 \<le> k" by simp
  then have "(q + 1) * 100 \<le> b * 115 - 100" using k by simp
  then have "(q + 1) * 100 * 4503599627370496 \<le> (b * 115 - 100) * 4503599627370496" by simp
  then have "p * 100 < (b * 115 - 100) * 4503599627370496" using q by simp
  then have "p * 100 * 9007199254740992 < (b * 115 - 100) * 4503599627370496 * 9007199254740992" by simp
  moreover have "b * 5179139571476070 * 9007199254740991 * 100 \<le> p * 9007199254740992 * 100" using low by simp
  ultimately have "b * 5179139571476070 * 9007199254740991 * 100 < (b * 115 - 100) * 4503599627370496 * 9007199254740992" by simp
  then show False using b by simp
qed

lemma int_times_1_15_lower:
  assumes "0 < b" "b \<le> 10 ^ 15"
  shows "\<exists>m. int_times_1_15 b = Inr m \<and> b * 115 div 100 - 1 \<le> m"
proof -
  define p where "p = round53 (nat b * double_1_15)"
  have small: "nat b < 2 ^ 53" using assms by (simp add: nat_less_iff)
  then have a: "round53 (nat b) = nat b" by (rule round53_exact)
  from small have "2 * (nat b * double_1_15) < 2 ^ 1076"
    by (simp add: double_1_15_def)
  with round53_upper [of "nat b * double_1_15"] have p: "p < 2 ^ 1076"
    unfolding p_def by (rule le_less_trans)
  have val: "int_times_1_15 b = Inr (int (p div 2 ^ 52))"
    using assms small p by (simp add: int_times_1_15_def a Let_def p_def [symmetric])
  have "nat b * double_1_15 * (2 ^ 53 - 1) \<le> p * 2 ^ 53"
    unfolding p_def by (rule round53_lower)
  then have "int (nat b * double_1_15 * (2 ^ 53 - 1)) \<le> int (p * 2 ^ 53)"
    by (rule iffD2 [OF of_nat_le_iff])
  then have low: "b * 5179139571476070 * 9007199254740991 \<le> int p * 9007199254740992"
    using assms by (simp add: double_1_15_def)
  define q where "q = int p div 4503599627370496"
  define k where "k = b * 115 div 100"
  have "int p mod 4503599627370496 < 4503599627370496" by simp
  then have q: "int p < (q + 1) * 4503599627370496"
    unfolding q_def by (simp add: algebra_simps minus_mult_div_eq_mod [symmetric])
  have k: "k * 100 \<le> b * 115" unfolding k_def by simp
  have b: "b \<le> 1000000000000000" using assms by simp
  have "k - 1 \<le> q" using low q k b by (rule stretch_arith)
  then show ?thesis
    using val by (simp add: k_def q_def zdiv_int)
qed

lemma round53_large:
  assumes "2 ^ 1024 \<le> n"
  shows "2 ^ 1024 \<le> round53 n"
proof -
  define s where "s = bitlen n - 53"
  define q where "q = n div 2 ^ s"
  have "(2::nat) ^ 1024 < 2 ^ bitlen n"
    using assms bitlen_upper [of n] by (rule le_less_trans)
  then have len: "1024 < bitlen n"
    by (rule power_less_imp_less_exp [rotated]) simp
  then have n0: "n \<noteq> 0" by (cases "n = 0") (simp_all add: bitlen.simps)
  have "52 + s = bitlen n - 1" using len by (simp add: s_def)
  then have "(2::nat) ^ 52 * 2 ^ s = 2 ^ (bitlen n - 1)"
    by (metis power_add)
  with bitlen_lower [OF n0] have "2 ^ 52 * 2 ^ s \<le> n" by simp
  then have "2 ^ 52 \<le> q"
    unfolding q_def by (simp add: less_eq_div_iff_mult_less_eq)
  have "1024 \<le> 52 + s" using len by (simp add: s_def)
  then have "(2::nat) ^ 1024 \<le> 2 ^ (52 + s)"
    by (rule power_increasing) simp
  also have "\<dots> = 2 ^ 52 * 2 ^ s" by (rule power_add)
  also have "\<dots> \<le> q * 2 ^ s" using \<open>2 ^ 52 \<le> q\<close> by simp
  also have "\<dots> \<le> round53 n"
    using len by (simp add: round53_def Let_def s_def [symmetric] q_def [symmetric])
  finally show ?thesis .
qed

lemma int_times_1_15_overflow:
  assumes "2 ^ 1024 \<le> \<bar>b\<bar>"
  shows "int_times_1_15 b = Inl OverflowError"
proof -
  have "int (2 ^ 1024) \<le> \<bar>b\<bar>" using assms by simp
  then have "2 ^ 1024 \<le> nat \<bar>b\<bar>" by (rule iffD2 [OF le_nat_iff, rotated]) simp
  then have "2 ^ 1024 \<le> round53 (nat \<bar>b\<bar>)" by (rule round53_large)
  then show ?thesis by (simp add: int_times_1_15_def Let_def)
qed

subsection \<open>One step\<close>

lemmas handler_defs = process_negotiation_step_def brand_initial_offer_def
  handle_influencer_response_def brand_considers_counter_def handle_final_decision_def
  empty_result_def py_int_def

text \<open>
  What a returned result can hold: the phase is always set; a price comes only with
  \<open>completed\<close>, an explicit \<open>None\<close> only with \<open>failed\<close>.
\<close>

lemma step_shape:
  assumes "process_negotiation_step now s = Inr r"
  shows "(res_negotiation_phase r = Some ''completed'' \<and> (\<exists>p. res_agreed_price r = Some (Some p)))
       \<or> (res_negotiation_phase r = Some ''failed'' \<and> res_agreed_price r = Some None)
       \<or> (res_agreed_price r = None
            \<and> (\<exists>ph. res_negotiation_phase r = Some ph \<and> ph \<noteq> ''completed''))"
  using assms
  by (auto simp: handler_defs Let_def split: if_splits option.splits sum.splits)

text \<open>
  The two branches that lead to \<open>error\<close> return neither a round count nor a
  timestamp; every other branch returns both.
\<close>

lemma step_rounds:
  assumes "process_negotiation_step now s = Inr r"
  shows "res_negotiation_phase r = Some ''error'' \<and> res_negotiation_rounds r = None
           \<and> res_last_activity r = None
       \<or> (\<exists>ph. res_negotiation_phase r = Some ph \<and> ph \<noteq> ''error'')
           \<and> res_negotiation_rounds r = Some (negotiation_rounds s + 1)
           \<and> res_last_activity r = Some now"
  using assms
  by (auto simp: handler_defs Let_def split: if_splits option.splits sum.splits)

lemma error_step:
  assumes "negotiation_phase s = ''error''"
  shows "process_negotiation_step now s = Inr (empty_result
             \<lparr>res_negotiation_phase := Some ''error'',
              res_bot_response := Some (ascii ''Something went wrong. Please start over.'')\<rparr>)"
  using assms by (simp add: process_negotiation_step_def)

lemma raising_phase:
  assumes "process_negotiation_step now s = Inl e"
  shows "negotiation_phase s \<in> {''initial'', ''waiting_for_influencer_response'',
           ''waiting_for_decision'', ''brand_considering''}"
  using assms
  by (auto simp: process_negotiation_step_def handle_final_decision_def Let_def
      split: if_splits)

subsection \<open>The routes\<close>

lemma start_negotiation_opens:
  assumes "start_negotiation sid clock sessions request = (sessions1, reply)"
    and "succeeded reply"
  shows "\<exists>session. sessions1 sid = Some session
           \<and> negotiation_rounds (sess_state session) = 1
           \<and> brand_offer (sess_state session) = req_budget request
           \<and> negotiation_phase (sess_state session) = ''waiting_for_influencer_response''"
  using assms
  by (auto simp: start_negotiation_def initial_state_def process_negotiation_step_def
      brand_initial_offer_def empty_result_def apply_result_def succeeded_def Let_def
      split: if_splits option.splits sum.splits)

lemma respond_other_session:
  assumes "req_session_id request \<noteq> sid"
  shows "fst (respond_to_negotiation clock sessions request) sid = sessions sid"
  using assms
  by (simp add: respond_to_negotiation_def Let_def split: option.splits sum.splits)

lemma respond_error_phase:
  assumes "sessions sid = Some session"
    and "negotiation_phase (sess_state session) = ''error''"
  shows "\<exists>session1. fst (respond_to_negotiation clock sessions request) sid = Some session1
           \<and> negotiation_phase (sess_state session1) = ''error''"
proof (cases "req_session_id request = sid")
  case False
  with assms show ?thesis by (simp add: respond_other_session)
next
  case True
  let ?s0 = "(sess_state session)\<lparr>user_input := req_message request, last_activity := clock 0\<rparr>"
  have "negotiation_phase ?s0 = ''error''" using assms by simp
  then have "process_negotiation_step (clock 1) ?s0 = Inr (empty_result
             \<lparr>res_negotiation_phase := Some ''error'',
              res_bot_response := Some (ascii ''Something went wrong. Please start over.'')\<rparr>)"
    by (rule error_step)
  with True assms show ?thesis
    by (simp add: respond_to_negotiation_def Let_def apply_result_def empty_result_def)
qed

lemma respond_round:
  assumes "sessions sid = Some session"
    and "req_session_id request = sid"
    and "respond_to_negotiation clock sessions request = (sessions1, reply)"
    and "succeeded reply"
  shows "\<exists>session1. sessions1 sid = Some session1
           \<and> (negotiation_phase (sess_state session1) = ''error''
              \<or> negotiation_rounds (sess_state session1)
                   = negotiation_rounds (sess_state session) + 1
                \<and> last_activity (sess_state session1) = clock 1)"
proof -
  let ?s0 = "(sess_state session)\<lparr>user_input := req_message request, last_activity := clock 0\<rparr>"
  show ?thesis
  proof (cases "process_negotiation_step (clock 1) ?s0")
    case (Inl e)
    with assms show ?thesis
      by (auto simp: respond_to_negotiation_def Let_def succeeded_def)
  next
    case (Inr r)
    from step_rounds [OF Inr] Inr assms show ?thesis
      by (auto simp: respond_to_negotiation_def Let_def apply_result_def)
  qed
qed

lemma turns_error_absorbing:
  assumes "client_turns sessions turns = (sessions', replies)"
    and "sessions sid = Some session"
    and "negotiation_phase (sess_state session) = ''error''"
  shows "\<exists>session'. sessions' sid = Some session'
           \<and> negotiation_phase (sess_state session') = ''error''"
  using assms
proof (induction turns arbitrary: sessions session replies)
  case Nil
  then show ?case by simp
next
  case (Cons t turns)
  obtain clock request where t: "t = (clock, request)" by (cases t)
  obtain sessions1 reply where r: "respond_to_negotiation clock sessions request = (sessions1, reply)"
    by (cases "respond_to_negotiation clock sessions request")
  obtain replies1 where rest: "client_turns sessions1 turns = (sessions', replies1)"
    using Cons.prems(1) t r by (auto split: prod.splits)
  from respond_error_phase [where sessions = sessions and sid = sid and clock = clock
      and request = request, OF Cons.prems(2,3)] r
  obtain session1 where "sessions1 sid = Some session1"
    "negotiation_phase (sess_state session1) = ''error''"
    by auto
  with rest show ?case by (rule Cons.IH [where sessions = sessions1])
qed

lemma turns_rounds:
  assumes "client_turns sessions turns = (sessions', replies)"
    and "list_all (\<lambda>t. req_session_id (snd t) = sid) turns"
    and "list_all succeeded replies"
    and "sessions sid = Some session"
    and "sessions' sid = Some session'"
    and "negotiation_phase (sess_state session') \<noteq> ''error''"
  shows "negotiation_rounds (sess_state session')
           = negotiation_rounds (sess_state session) + int (length turns)
       \<and> last_activity (sess_state session')
           = last (last_activity (sess_state session) # map (\<lambda>t. fst t 1) turns)"
  using assms
proof (induction turns arbitrary: sessions session replies)
  case Nil
  then show ?case by simp
next
  case (Cons t turns)
  obtain clock request where t: "t = (clock, request)" by (cases t)
  obtain sessions1 reply where r: "respond_to_negotiation clock sessions request = (sessions1, reply)"
    by (cases "respond_to_negotiation clock sessions request")
  obtain replies1 where rest: "client_turns sessions1 turns = (sessions', replies1)"
    and replies: "replies = reply # replies1"
    using Cons.prems(1) t r by (auto split: prod.splits)
  have sid: "req_session_id request = sid"
    and sids: "list_all (\<lambda>t. req_session_id (snd t) = sid) turns"
    using Cons.prems(2) t by simp_all
  have ok: "succeeded reply" and oks: "list_all succeeded replies1"
    using Cons.prems(3) replies by simp_all
  from respond_round [where sessions = sessions and sid = sid, OF Cons.prems(4) sid r ok]
  obtain session1 where s1: "sessions1 sid = Some session1"
    and alt: "negotiation_phase (sess_state session1) = ''error''
       \<or> negotiation_rounds (sess_state session1) = negotiation_rounds (sess_state session) + 1
         \<and> last_activity (sess_state session1) = clock 1"
    by blast
  have "negotiation_phase (sess_state session1) \<noteq> ''error''"
  proof
    assume "negotiation_phase (sess_state session1) = ''error''"
    with rest s1 have "\<exists>session'. sessions' sid = Some session'
        \<and> negotiation_phase (sess_state session') = ''error''"
      by (rule turns_error_absorbing [where sessions = sessions1 and sid = sid])
    with Cons.prems(5,6) show False by simp
  qed
  with alt have one: "negotiation_rounds (sess_state session1) = negotiation_rounds (sess_state session) + 1"
    "last_activity (sess_state session1) = clock 1"
    by simp_all
  from Cons.IH [OF rest sids oks s1 Cons.prems(5,6)] one t
  show ?case by simp
qed

subsection \<open>Long numbers\<close>

lemma contains_subset: "contains s sub \<Longrightarrow> set sub \<subseteq> set s"
proof (induction s)
  case Nil
  then show ?case by simp
next
  case (Cons c cs)
  show ?case
  proof (cases "take (length sub) (c # cs) = sub")
    case True
    then have "set sub = set (take (length sub) (c # cs))" by simp
    also have "\<dots> \<subseteq> set (c # cs)" by (rule set_take_subset)
    finally show ?thesis .
  next
    case False
    with Cons.prems have "contains cs sub" by simp
    then have "set sub \<subseteq> set cs" by (rule Cons.IH)
    then show ?thesis by auto
  qed
qed

lemma ascii_digit: "48 \<le> c \<Longrightarrow> c \<le> 57 \<Longrightarrow> is_digit c"
  by (simp add: is_digit_def digit_zeros_def)

lemma lower_ascii_digits:
  assumes "set m \<subseteq> {c. 48 \<le> c \<and> c \<le> 57}"
  shows "lower m = m"
  using assms
  by (induction m) (auto simp: lower_def lower_char_def is_upper_def)

lemma ascii_digits_not_accepted:
  assumes "set m \<subseteq> {c. 48 \<le> c \<and> c \<le> 57}"
  shows "\<not> accepts m"
proof
  assume "accepts m"
  then have "contains m (ascii ''accept'') \<or> contains m (ascii ''yes'')"
    using assms by (simp add: accepts_def lower_ascii_digits)
  then have "set (ascii ''accept'') \<subseteq> set m \<or> set (ascii ''yes'') \<subseteq> set m"
    using contains_subset by blast
  then have "101 \<in> set m" by (auto simp: ascii_def)
  with assms show False by auto
qed

lemma first_digit_run_all:
  assumes "\<forall>c\<in>set m. is_digit c"
  shows "first_digit_run m = m"
proof (cases m)
  case Nil
  then show ?thesis by (simp add: first_digit_run_def)
next
  case (Cons c cs)
  with assms have "takeWhile is_digit m = m" by (simp add: takeWhile_eq_all_conv)
  moreover have "takeWhile is_digit m \<noteq> []" using Cons assms by simp
  ultimately show ?thesis using first_digit_run_head by simp
qed

lemma long_number_raises:
  assumes "waiting s"
    and "set (user_input s) \<subseteq> {c. 48 \<le> c \<and> c \<le> 57}"
    and "4300 < length (user_input s)"
  shows "process_negotiation_step now s
           = Inl (ValueError (int_limit_message (length (user_input s))))"
proof -
  have all: "\<forall>c\<in>set (user_input s). is_digit c"
    using assms(2) ascii_digit by auto
  have "user_input s \<noteq> []" using assms(3) by auto
  with all have "\<exists>c\<in>set (user_input s). is_digit c"
    by (cases "user_input s") auto
  then have "re_search (user_input s) = Some (user_input s)"
    using all by (simp add: re_search_first_digit_run first_digit_run_all)
  with assms(1,3) ascii_digits_not_accepted [OF assms(2)] show ?thesis
    by (auto simp: waiting_def handler_defs Let_def)
qed

lemma respond_raised:
  assumes "active_sessions (req_session_id request) = Some session"
    and "process_negotiation_step (clock 1)
           ((sess_state session)
              \<lparr>user_input := req_message request, last_activity := clock 0\<rparr>) = Inl e"
  shows "respond_to_negotiation clock active_sessions request
           = (active_sessions(req_session_id request \<mapsto>
                session\<lparr>sess_state := (sess_state session)
                  \<lparr>user_input := req_message request, last_activity := clock 0\<rparr>\<rparr>),
              ServerError e)"
  using assms by (simp add: respond_to_negotiation_def Let_def)

lemma sample_store_one:
  "sample_store b [m]
     = fst (respond_to_negotiation sample_clock (sample_store b [])
              \<lparr>req_session_id = ''s1'', req_message = m\<rparr>)"
  by (simp add: sample_store_def says_def split: prod.splits)

subsection \<open>Evaluation of the samples\<close>

lemmas string_defs = ascii_def lower_def lower_char_def upper_char_def is_upper_def
  is_lower_def is_digit_def digit_value_def digit_zeros_def rupee_def
  replace_underscores_def title_def format_commas_def digits.simps newline_def
  brand_icon_def influencer_icon_def price_def brand_says_def influencer_says_def
  match_here_def int_of_digits_def accepts_def asks_details_def

lemmas engine_defs = handler_defs apply_result_def int_times_1_15_def round53_def
  double_1_15_def bitlen.simps

lemmas route_defs = start_negotiation_def respond_to_negotiation_def initial_state_def
  reply_of_def succeeded_def

lemmas sample_defs = sample_request_def sample_clock_def says_def sample_store_def
  sample_session_def session_in_def

section \<open>The claims\<close>

text \<open>
  C1, as stated: for every session and every engine step, \<^verbatim>\<open>agreedPrice\<close> is
  non-null iff the phase is Completed, also after a further step on a session in a
  terminal phase. It fails: a budget of 50000 accepted with "yes please" completes at
  50000; the next message falls to the branch for unrecognised phases, which sets the
  phase to \<open>error\<close> and leaves the price.
\<close>

theorem price_invariant_counterexample:
  "map_option negotiation_phase (sample_session 50000 [ascii ''yes please'', ascii ''thank you''])
     = Some ''error''
   \<and> map_option agreed_price (sample_session 50000 [ascii ''yes please'', ascii ''thank you''])
     = Some (Some 50000)
   \<and> map_option price_invariant (sample_session 50000 [ascii ''yes please'', ascii ''thank you''])
     = Some False"
  by (simp add: sample_defs route_defs engine_defs string_defs price_invariant_def Let_def)

text \<open>
  C1, amended: a step that returns, applied to a session that satisfies the invariant,
  gives a session that satisfies it exactly when the session was not Completed before
  the step. So the invariant holds from the start of a session up to its first terminal
  phase and through further steps on Failed and Error sessions, and it breaks on the
  step after Completed.
\<close>

theorem price_invariant_step:
  assumes "price_invariant s"
    and "process_negotiation_step now s = Inr r"
  shows "price_invariant (apply_result s r) = (negotiation_phase s \<noteq> ''completed'')"
proof (cases "negotiation_phase s = ''completed''")
  case True
  with assms(2) have "r = empty_result
      \<lparr>res_negotiation_phase := Some ''error'',
       res_bot_response := Some (ascii ''Something went wrong. Please start over.'')\<rparr>"
    by (simp add: process_negotiation_step_def)
  with True assms(1) show ?thesis
    by (simp add: price_invariant_def apply_result_def empty_result_def)
next
  case False
  with assms(1) have "agreed_price s = None"
    by (simp add: price_invariant_def)
  with step_shape [OF assms(2)] False show ?thesis
    by (auto simp: price_invariant_def apply_result_def)
qed

theorem price_invariant_step_witness:
  "price_invariant (session_in ''waiting_for_influencer_response'' 50000 50000 0 (ascii ''yes please''))
   \<and> (\<exists>r. process_negotiation_step (sample_clock 1)
            (session_in ''waiting_for_influencer_response'' 50000 50000 0 (ascii ''yes please'')) = Inr r
         \<and> price_invariant
             (apply_result
                (session_in ''waiting_for_influencer_response'' 50000 50000 0 (ascii ''yes please'')) r))"
  using price_invariant_step
    [of "session_in ''waiting_for_influencer_response'' 50000 50000 0 (ascii ''yes please'')"
      "sample_clock 1"]
  by (simp add: sample_defs engine_defs string_defs price_invariant_def Let_def)

text \<open>
  C2: the claim says the stretch ceiling is \<open>floor (budget * 1.15)\<close> in exact
  arithmetic, 57500 for a budget of 50000. The source computes
  \<^verbatim>\<open>int(budget * 1.15)\<close> in double precision, under the comment that the brand can
  go 15% over its budget: for 50000 the product rounds to the double just below 57500
  and the truncation gives 57499. A counter-offer of 60000 therefore gets the final
  offer 57499.
\<close>

theorem stretch_ceiling_50000:
  "int_times_1_15 50000 = Inr 57499
   \<and> (50000::int) * 115 div 100 = 57500
   \<and> map_option negotiation_phase
        (sample_session 50000 [ascii ''I want '' @ rupee @ ascii ''60000'', ascii ''ok?''])
      = Some ''final_decision''
   \<and> map_option brand_offer
        (sample_session 50000 [ascii ''I want '' @ rupee @ ascii ''60000'', ascii ''ok?''])
      = Some 57499"
  by (simp add: sample_defs route_defs engine_defs string_defs Let_def)

text \<open>
  C3, as stated: one engine step never raises; a missing budget or offer gives the Error
  phase and a message. It fails in the Initial phase: a request with budget 0 makes
  \<^verbatim>\<open>brand_initial_offer\<close> raise ValueError, which the route turns into a
  service error; no session is stored.
\<close>

theorem missing_budget_counterexample:
  "process_negotiation_step (sample_clock 2) (initial_state ''s1'' sample_clock (sample_request 0))
     = Inl (ValueError (ascii ''Missing budget in state''))
   \<and> start_negotiation ''s1'' sample_clock Map.empty (sample_request 0)
     = (Map.empty, ServerError (ValueError (ascii ''Missing budget in state'')))"
  by (simp add: start_negotiation_def sample_request_def initial_state_def
      process_negotiation_step_def brand_initial_offer_def)

text \<open>
  C3, amended: take a session whose campaign type and duration are strings, whose budget
  is below \<open>2^1000\<close> in magnitude and whose offers have at most 4300 digits (the
  interpreter formats no larger integer). One engine step on it raises in exactly two
  cases, both with ValueError: in the Initial phase with a missing (zero) budget, and in
  a waiting phase when the message has no accept keyword and its first run of digits is
  longer than 4300 digits, which \<^verbatim>\<open>int\<close> refuses. In every other case the
  step returns, and in BrandConsidering with a missing (zero) budget or influencer offer
  the session moves to the Error phase.
\<close>

theorem step_raises_in_two_cases:
  assumes "campaign_type s \<noteq> None"
    and "duration s \<noteq> None"
    and "\<bar>budget s\<bar> < 2 ^ 1000"
    and "\<bar>brand_offer s\<bar> < 10 ^ 4300"
    and "\<bar>influencer_offer s\<bar> < 10 ^ 4300"
  shows "if negotiation_phase s = ''initial'' \<and> budget s = 0
         then process_negotiation_step now s
                = Inl (ValueError (ascii ''Missing budget in state''))
         else if waiting s \<and> \<not> accepts (user_input s)
                   \<and> 4300 < length (first_digit_run (user_input s))
         then process_negotiation_step now s
                = Inl (ValueError
                         (int_limit_message (length (first_digit_run (user_input s)))))
         else \<exists>r. process_negotiation_step now s = Inr r
                \<and> (negotiation_phase s = ''brand_considering''
                      \<and> (influencer_offer s = 0 \<or> budget s = 0)
                    \<longrightarrow> negotiation_phase (apply_result s r) = ''error'')"
proof -
  obtain m where m: "int_times_1_15 (budget s) = Inr m"
    using int_times_1_15_in_range [OF assms(3)] by blast
  obtain ct du where strings: "campaign_type s = Some ct" "duration s = Some du"
    using assms(1,2) by auto
  have none: "first_digit_run (user_input s) = []" if "re_search (user_input s) = None"
    using that first_digit_run_digit [of "user_input s"]
    by (auto simp: re_search_first_digit_run split: if_splits)
  show ?thesis
  proof (cases "waiting s \<and> \<not> accepts (user_input s)")
    case False
    with m strings show ?thesis
      by (auto simp: waiting_def handler_defs apply_result_def Let_def
          split: option.splits)
  next
    case True
    then have phase: "negotiation_phase s \<noteq> ''initial''"
      "negotiation_phase s \<noteq> ''brand_considering''"
      by (auto simp: waiting_def)
    show ?thesis
    proof (cases "re_search (user_input s)")
      case None
      with True strings none [OF None] show ?thesis
        by (auto simp: waiting_def handler_defs Let_def)
    next
      case (Some g)
      then have g: "g = first_digit_run (user_input s)"
        by (auto simp: re_search_first_digit_run split: if_splits)
      with True Some phase show ?thesis
        by (auto simp: waiting_def handler_defs Let_def)
    qed
  qed
qed

theorem step_raises_in_two_cases_witness:
  "(\<exists>r. process_negotiation_step (sample_clock 1)
           (session_in ''brand_considering'' 50000 50000 0 (ascii ''0'')) = Inr r
        \<and> negotiation_phase
            (apply_result (session_in ''brand_considering'' 50000 50000 0 (ascii ''0'')) r)
          = ''error'')
   \<and> process_negotiation_step (sample_clock 2)
        (initial_state ''s1'' sample_clock (sample_request 0))
      = Inl (ValueError (ascii ''Missing budget in state''))"
proof -
  have small: "\<bar>n\<bar> < 10 ^ 4300" if "\<bar>n\<bar> < 10 ^ 5" for n :: int
  proof -
    have "(10::int) ^ 5 \<le> 10 ^ 4300" by (rule power_increasing) simp_all
    with that show ?thesis by (rule less_le_trans)
  qed
  have bound: "\<bar>n\<bar> < 2 ^ 1000" if "\<bar>n\<bar> < 2 ^ 17" for n :: int
  proof -
    have "(2::int) ^ 17 \<le> 2 ^ 1000" by (rule power_increasing) simp_all
    with that show ?thesis by (rule less_le_trans)
  qed
  let ?s = "session_in ''brand_considering'' 50000 50000 0 (ascii ''0'')"
  let ?i = "initial_state ''s1'' sample_clock (sample_request 0)"
  have strings: "campaign_type ?s \<noteq> None" "duration ?s \<noteq> None"
    by (simp_all add: session_in_def)
  have budget: "\<bar>budget ?s\<bar> < 2 ^ 1000"
    by (rule bound) (simp add: session_in_def)
  have offers: "\<bar>brand_offer ?s\<bar> < 10 ^ 4300" "\<bar>influencer_offer ?s\<bar> < 10 ^ 4300"
    by (rule small, simp add: session_in_def)+
  from step_raises_in_two_cases [OF strings budget offers, of "sample_clock 1"]
  have first: "\<exists>r. process_negotiation_step (sample_clock 1) ?s = Inr r
      \<and> negotiation_phase (apply_result ?s r) = ''error''"
    by (simp add: session_in_def waiting_def)
  have strings': "campaign_type ?i \<noteq> None" "duration ?i \<noteq> None"
    by (simp_all add: initial_state_def sample_request_def)
  have budget': "\<bar>budget ?i\<bar> < 2 ^ 1000"
    by (rule bound) (simp add: initial_state_def sample_request_def)
  have offers': "\<bar>brand_offer ?i\<bar> < 10 ^ 4300" "\<bar>influencer_offer ?i\<bar> < 10 ^ 4300"
    by (rule small, simp add: initial_state_def)+
  from step_raises_in_two_cases [OF strings' budget' offers', of "sample_clock 2"]
  have "process_negotiation_step (sample_clock 2) ?i
      = Inl (ValueError (ascii ''Missing budget in state''))"
    by (simp add: initial_state_def sample_request_def)
  with first show ?thesis by simp
qed

text \<open>
  C4, as stated: every engine transition, error branches included, increments
  \<^verbatim>\<open>rounds\<close> by one and refreshes \<^verbatim>\<open>lastActivity\<close>, so that
  \<^verbatim>\<open>rounds\<close> is N+1 after N client turns. It fails: after the two turns
  "yes please" and "thank you" the session is in the Error phase with
  \<^verbatim>\<open>rounds\<close> 2, since the result of the fallback branch has no
  \<^verbatim>\<open>negotiation_rounds\<close> key.
\<close>

theorem rounds_counterexample:
  "map_option negotiation_rounds (sample_session 50000 [ascii ''yes please'', ascii ''thank you''])
     = Some 2
   \<and> length [ascii ''yes please'', ascii ''thank you''] + 1 = 3"
  by (simp add: sample_defs route_defs engine_defs string_defs Let_def)

text \<open>
  C4, amended: over any sequence of client turns on one session, each answered normally,
  that leaves the session outside the Error phase, every turn incremented
  \<^verbatim>\<open>rounds\<close> by exactly one and the last one set \<^verbatim>\<open>lastActivity\<close> to the
  time of its step; when the sequence begins right after a successful
  \<^verbatim>\<open>/start-negotiation\<close>, \<^verbatim>\<open>rounds\<close> after N turns is N+1. The branches
  that enter the Error phase leave \<^verbatim>\<open>rounds\<close> as it was.
\<close>

theorem rounds_count_turns:
  assumes "client_turns store turns = (store', replies)"
    and "list_all (\<lambda>t. req_session_id (snd t) = sid) turns"
    and "list_all succeeded replies"
    and "store sid = Some session"
    and "store' sid = Some session'"
    and "negotiation_phase (sess_state session') \<noteq> ''error''"
  shows "negotiation_rounds (sess_state session')
           = negotiation_rounds (sess_state session) + int (length turns)
       \<and> last_activity (sess_state session')
           = last (last_activity (sess_state session) # map (\<lambda>t. fst t 1) turns)
       \<and> (start_negotiation sid start_clock start_store request = (store, start_reply)
            \<and> succeeded start_reply
          \<longrightarrow> negotiation_rounds (sess_state session') = int (length turns) + 1)"
proof -
  have count: "negotiation_rounds (sess_state session')
           = negotiation_rounds (sess_state session) + int (length turns)
       \<and> last_activity (sess_state session')
           = last (last_activity (sess_state session) # map (\<lambda>t. fst t 1) turns)"
    using assms by (rule turns_rounds)
  have "negotiation_rounds (sess_state session) = 1"
    if "start_negotiation sid start_clock start_store request = (store, start_reply)"
      and "succeeded start_reply"
    using start_negotiation_opens [OF that] assms(4) by auto
  with count show ?thesis by simp
qed

theorem rounds_count_turns_witness:
  "list_all succeeded
     (snd (client_turns (sample_store 50000 [])
        (map says [ascii ''What about it?'', ascii ''I want 60000''])))
   \<and> map_option negotiation_phase (sample_session 50000 [ascii ''What about it?'', ascii ''I want 60000''])
     = Some ''brand_considering''
   \<and> map_option negotiation_rounds (sample_session 50000 [ascii ''What about it?'', ascii ''I want 60000''])
     = Some 3"
  using rounds_count_turns
    [where store = "sample_store 50000 []"
      and turns = "map says [ascii ''What about it?'', ascii ''I want 60000'']"
      and store' = "sample_store 50000 [ascii ''What about it?'', ascii ''I want 60000'']"
      and replies = "snd (client_turns (sample_store 50000 [])
         (map says [ascii ''What about it?'', ascii ''I want 60000'']))"
      and sid = "''s1''"
      and session = "the (sample_store 50000 [] ''s1'')"
      and session' = "the (sample_store 50000 [ascii ''What about it?'', ascii ''I want 60000''] ''s1'')"
      and start_clock = sample_clock and start_store = Map.empty
      and request = "sample_request 50000"
      and start_reply = "snd (start_negotiation ''s1'' sample_clock Map.empty (sample_request 50000))"]
  by (simp add: sample_defs route_defs engine_defs string_defs Let_def)

text \<open>
  C5: in the two waiting phases an input that contains "accept" or "yes", in any case
  of letters, completes the negotiation at the current brand offer, whatever else the
  input holds (digits included: the test comes before the search for a number). On the
  opening offer the brand offer is the budget, so "yes please" agrees on the budget.
\<close>

theorem accept_completes:
  assumes "waiting s"
    and "contains (lower (user_input s)) (ascii ''accept'') \<or> contains (lower (user_input s)) (ascii ''yes'')"
  shows "\<exists>r. process_negotiation_step now s = Inr r
           \<and> res_is_complete r = Some True
           \<and> agreed_price (apply_result s r) = Some (brand_offer s)
           \<and> negotiation_phase (apply_result s r) = ''completed''"
  using assms
  by (auto simp: waiting_def accepts_def handler_defs apply_result_def Let_def)

theorem accept_completes_witness:
  "map_option negotiation_phase (sample_session 50000 []) = Some ''waiting_for_influencer_response''
   \<and> map_option brand_offer (sample_session 50000 []) = Some 50000
   \<and> map_option budget (sample_session 50000 []) = Some 50000
   \<and> (\<exists>r. process_negotiation_step (sample_clock 1)
            ((the (sample_session 50000 []))\<lparr>user_input := ascii ''yes please''\<rparr>) = Inr r
         \<and> agreed_price
             (apply_result ((the (sample_session 50000 []))\<lparr>user_input := ascii ''yes please''\<rparr>) r)
           = Some 50000)
   \<and> (\<exists>r. process_negotiation_step (sample_clock 1)
            (session_in ''waiting_for_decision'' 50000 50000 0 (ascii ''I ACCEPT, not 70000'')) = Inr r
         \<and> agreed_price
             (apply_result
                (session_in ''waiting_for_decision'' 50000 50000 0 (ascii ''I ACCEPT, not 70000'')) r)
           = Some 50000)"
  using accept_completes
    [of "(the (sample_session 50000 []))\<lparr>user_input := ascii ''yes please''\<rparr>" "sample_clock 1"]
    accept_completes
    [of "session_in ''waiting_for_decision'' 50000 50000 0 (ascii ''I ACCEPT, not 70000'')"
      "sample_clock 1"]
  by (simp add: sample_defs route_defs engine_defs string_defs waiting_def Let_def)

text \<open>
  C6, as stated: in BrandConsidering every influencer offer up to the budget, and every
  one up to \<open>floor (budget * 1.15)\<close>, is accepted. It fails for the offer 0, which a
  message such as "0" produces: the handler treats a zero offer as missing and moves to
  the Error phase.
\<close>

theorem zero_offer_counterexample:
  "map_option influencer_offer (sample_session 50000 [ascii ''0'']) = Some 0
   \<and> map_option negotiation_phase (sample_session 50000 [ascii ''0'']) = Some ''brand_considering''
   \<and> map_option negotiation_phase (sample_session 50000 [ascii ''0'', ascii ''well?'']) = Some ''error''
   \<and> map_option agreed_price (sample_session 50000 [ascii ''0'', ascii ''well?'']) = Some None"
  by (simp add: sample_defs route_defs engine_defs string_defs Let_def)

text \<open>
  C6, amended: in BrandConsidering with a non-zero influencer offer and a non-zero
  budget below \<open>2^1000\<close> in magnitude, an offer of at most the budget is accepted as
  the agreed price and the phase becomes Completed; so is every offer strictly below
  \<open>floor (budget * 1.15)\<close> when the budget is positive and at most \<open>10^15\<close>.
  Nothing is said about the offer that equals \<open>floor (budget * 1.15)\<close>.
\<close>

theorem brand_accepts_counter:
  assumes "negotiation_phase s = ''brand_considering''"
    and "influencer_offer s \<noteq> 0"
    and "budget s \<noteq> 0"
    and "\<bar>budget s\<bar> < 2 ^ 1000"
    and "influencer_offer s \<le> budget s
       \<or> (0 < budget s \<and> budget s \<le> 10 ^ 15
            \<and> influencer_offer s < budget s * 115 div 100)"
  shows "\<exists>r. process_negotiation_step now s = Inr r
           \<and> res_is_complete r = Some True
           \<and> agreed_price (apply_result s r) = Some (influencer_offer s)
           \<and> negotiation_phase (apply_result s r) = ''completed''"
proof -
  obtain m where m: "int_times_1_15 (budget s) = Inr m"
    using int_times_1_15_in_range [OF assms(4)] by blast
  have "influencer_offer s \<le> budget s \<or> influencer_offer s \<le> m"
  proof (cases "influencer_offer s \<le> budget s")
    case True
    then show ?thesis by simp
  next
    case False
    with assms(5) have b: "0 < budget s" "budget s \<le> 10 ^ 15"
      and less: "influencer_offer s < budget s * 115 div 100"
      by simp_all
    from int_times_1_15_lower [OF b] m have "budget s * 115 div 100 - 1 \<le> m"
      by simp
    with less show ?thesis by simp
  qed
  with assms(1,2,3) m show ?thesis
    by (auto simp: handler_defs apply_result_def Let_def)
qed

theorem brand_accepts_counter_witness:
  "(55000::int) < 50000 * 115 div 100
   \<and> (\<exists>r. process_negotiation_step (sample_clock 1)
            (session_in ''brand_considering'' 50000 50000 55000 (ascii ''and?'')) = Inr r
         \<and> agreed_price
             (apply_result (session_in ''brand_considering'' 50000 50000 55000 (ascii ''and?'')) r)
           = Some 55000
         \<and> negotiation_phase
             (apply_result (session_in ''brand_considering'' 50000 50000 55000 (ascii ''and?'')) r)
           = ''completed'')"
  using brand_accepts_counter
    [of "session_in ''brand_considering'' 50000 50000 55000 (ascii ''and?'')" "sample_clock 1"]
  by (auto simp: session_in_def)

text \<open>
  C7, as stated: in the two waiting phases, an input without "accept" and "yes" that
  holds a digit is a counter-offer: its first run of decimal digits is parsed, stored as
  the influencer offer, and the phase becomes BrandConsidering. It fails for a run of
  more than 4300 digits: \<^verbatim>\<open>int\<close> raises ValueError, \<^verbatim>\<open>/respond\<close> answers
  with a service error, and the session stays in its waiting phase with no offer stored.
\<close>

theorem long_number_counterexample:
  "snd (respond_to_negotiation sample_clock (sample_store 50000 [])
          \<lparr>req_session_id = ''s1'', req_message = replicate 4301 49\<rparr>)
     = ServerError (ValueError (int_limit_message 4301))
   \<and> map_option negotiation_phase (sample_session 50000 [replicate 4301 49])
     = Some ''waiting_for_influencer_response''
   \<and> map_option influencer_offer (sample_session 50000 [replicate 4301 49]) = Some 0"
proof -
  define session where "session = the (sample_store 50000 [] ''s1'')"
  let ?request = "\<lparr>req_session_id = ''s1'', req_message = replicate 4301 49\<rparr>"
  let ?s0 = "(sess_state session)
      \<lparr>user_input := req_message ?request, last_activity := sample_clock 0\<rparr>"
  have stored: "sample_store 50000 [] (req_session_id ?request) = Some session"
    by (simp add: session_def sample_defs route_defs engine_defs string_defs Let_def)
  have phase: "negotiation_phase (sess_state session) = ''waiting_for_influencer_response''"
    and offer: "influencer_offer (sess_state session) = 0"
    by (simp_all add: session_def sample_defs route_defs engine_defs string_defs Let_def)
  have "process_negotiation_step (sample_clock 1) ?s0
      = Inl (ValueError (int_limit_message (length (user_input ?s0))))"
    by (rule long_number_raises) (simp_all add: waiting_def phase)
  then have raised: "process_negotiation_step (sample_clock 1) ?s0
      = Inl (ValueError (int_limit_message 4301))"
    by simp
  have "respond_to_negotiation sample_clock (sample_store 50000 []) ?request
      = ((sample_store 50000 [])(req_session_id ?request \<mapsto>
           session\<lparr>sess_state := ?s0\<rparr>),
         ServerError (ValueError (int_limit_message 4301)))"
    using stored raised by (rule respond_raised)
  with phase offer show ?thesis
    by (simp add: sample_session_def sample_store_one)
qed

text \<open>
  C7, amended: in the two waiting phases, an input without "accept" and "yes" that holds
  a digit is a counter-offer when its first contiguous run of decimal digits from the
  left has at most 4300 digits: that run, with or without a rupee sign before it, read
  in base 10, becomes the influencer offer, and the phase becomes BrandConsidering. The
  decimal digits are those of every script, as \<^verbatim>\<open>\d\<close> and \<^verbatim>\<open>int\<close> take
  them. \<open>first_digit_run\<close> is the run in the words of the specification; the source
  finds it with \<open>re_search\<close>.
\<close>

theorem counter_offer_extracted:
  assumes "waiting s"
    and "\<not> contains (lower (user_input s)) (ascii ''accept'')"
    and "\<not> contains (lower (user_input s)) (ascii ''yes'')"
    and "\<exists>c\<in>set (user_input s). is_digit c"
    and "length (first_digit_run (user_input s)) \<le> 4300"
  shows "re_search (user_input s) = Some (first_digit_run (user_input s))
       \<and> (\<exists>r. process_negotiation_step now s = Inr r
             \<and> influencer_offer (apply_result s r)
                 = int_of_digits (first_digit_run (user_input s))
             \<and> negotiation_phase (apply_result s r) = ''brand_considering'')"
proof -
  have found: "re_search (user_input s) = Some (first_digit_run (user_input s))"
    using assms(4) by (simp add: re_search_first_digit_run)
  have "\<not> accepts (user_input s)"
    using assms(2,3) by (simp add: accepts_def)
  with assms(1,5) found show ?thesis
    by (auto simp: waiting_def handler_defs apply_result_def Let_def)
qed

theorem counter_offer_extracted_witness:
  "first_digit_run (ascii ''I want '' @ rupee @ ascii ''60000'') = ascii ''60000''
   \<and> (\<exists>r. process_negotiation_step (sample_clock 1)
            (session_in ''waiting_for_influencer_response'' 50000 50000 0
               (ascii ''I want '' @ rupee @ ascii ''60000'')) = Inr r
         \<and> influencer_offer
             (apply_result
                (session_in ''waiting_for_influencer_response'' 50000 50000 0
                   (ascii ''I want '' @ rupee @ ascii ''60000'')) r)
           = 60000
         \<and> negotiation_phase
             (apply_result
                (session_in ''waiting_for_influencer_response'' 50000 50000 0
                   (ascii ''I want '' @ rupee @ ascii ''60000'')) r)
           = ''brand_considering'')
   \<and> (\<exists>r. process_negotiation_step (sample_clock 1)
            (session_in ''waiting_for_decision'' 50000 50000 0
               ([1635, 1637] @ ascii '' or 60000'')) = Inr r
         \<and> influencer_offer
             (apply_result
                (session_in ''waiting_for_decision'' 50000 50000 0
                   ([1635, 1637] @ ascii '' or 60000'')) r)
           = 35
         \<and> negotiation_phase
             (apply_result
                (session_in ''waiting_for_decision'' 50000 50000 0
                   ([1635, 1637] @ ascii '' or 60000'')) r)
           = ''brand_considering'')"
  using counter_offer_extracted
    [of "session_in ''waiting_for_influencer_response'' 50000 50000 0
           (ascii ''I want '' @ rupee @ ascii ''60000'')" "sample_clock 1"]
    counter_offer_extracted
    [of "session_in ''waiting_for_decision'' 50000 50000 0
           ([1635, 1637] @ ascii '' or 60000'')" "sample_clock 1"]
  by (simp add: session_in_def waiting_def first_digit_run_def int_of_digits_def
      lower_def lower_char_def is_upper_def is_digit_def digit_value_def digit_zeros_def
      rupee_def ascii_def)

text \<open>
  C8, as stated: in the FinalDecision phase an input with "accept" or "yes" completes
  the negotiation at the brand's offer, any other input ends it in the Failed phase with
  no agreed price, and both outcomes are terminal. The last part fails: after the final
  offer is declined with "no thanks", the next message moves the session from Failed to
  the Error phase.
\<close>

theorem failed_not_terminal_counterexample:
  "map_option negotiation_phase
     (sample_session 50000 [ascii ''I want 60000'', ascii ''ok?''])
     = Some ''final_decision''
   \<and> map_option negotiation_phase
     (sample_session 50000 [ascii ''I want 60000'', ascii ''ok?'', ascii ''no thanks''])
     = Some ''failed''
   \<and> map_option negotiation_phase
     (sample_session 50000
        [ascii ''I want 60000'', ascii ''ok?'', ascii ''no thanks'', ascii ''hello''])
     = Some ''error''"
  by (simp add: sample_defs route_defs engine_defs string_defs Let_def)

text \<open>
  C8, amended: in the FinalDecision phase an input that contains "accept" or "yes"
  completes the negotiation at the brand's offer; any other input, "no thanks" for one,
  ends it in the Failed phase with no agreed price. Both results are flagged complete,
  and no handler takes the session up again: the next step, whatever the message, is
  the branch for unrecognised phases, which moves the session to the Error phase and
  leaves the agreed price as it is.
\<close>

theorem final_decision_outcomes:
  assumes "negotiation_phase s = ''final_decision''"
  shows "\<exists>r r'. process_negotiation_step now s = Inr r
           \<and> res_is_complete r = Some True
           \<and> (if contains (lower (user_input s)) (ascii ''accept'')
                   \<or> contains (lower (user_input s)) (ascii ''yes'')
                then negotiation_phase (apply_result s r) = ''completed''
                     \<and> agreed_price (apply_result s r) = Some (brand_offer s)
                else negotiation_phase (apply_result s r) = ''failed''
                     \<and> agreed_price (apply_result s r) = None)
           \<and> process_negotiation_step later
                ((apply_result s r)\<lparr>user_input := msg, last_activity := t\<rparr>) = Inr r'
           \<and> res_bot_response r' = Some (ascii ''Something went wrong. Please start over.'')
           \<and> negotiation_phase
                (apply_result ((apply_result s r)\<lparr>user_input := msg, last_activity := t\<rparr>) r')
              = ''error''
           \<and> agreed_price
                (apply_result ((apply_result s r)\<lparr>user_input := msg, last_activity := t\<rparr>) r')
              = agreed_price (apply_result s r)"
  using assms by (simp add: accepts_def handler_defs apply_result_def Let_def)

theorem final_decision_outcomes_witness:
  "(\<exists>r r'. process_negotiation_step (sample_clock 1)
          (session_in ''final_decision'' 50000 57499 60000 (ascii ''no thanks'')) = Inr r
       \<and> res_is_complete r = Some True
       \<and> negotiation_phase
           (apply_result (session_in ''final_decision'' 50000 57499 60000 (ascii ''no thanks'')) r)
         = ''failed''
       \<and> agreed_price
           (apply_result (session_in ''final_decision'' 50000 57499 60000 (ascii ''no thanks'')) r)
         = None
       \<and> process_negotiation_step (sample_clock 1)
           ((apply_result
               (session_in ''final_decision'' 50000 57499 60000 (ascii ''no thanks'')) r)
              \<lparr>user_input := ascii ''hello'', last_activity := sample_clock 0\<rparr>) = Inr r'
       \<and> negotiation_phase
           (apply_result
              ((apply_result
                  (session_in ''final_decision'' 50000 57499 60000 (ascii ''no thanks'')) r)
                 \<lparr>user_input := ascii ''hello'', last_activity := sample_clock 0\<rparr>) r')
         = ''error'')
   \<and> (\<exists>r. process_negotiation_step (sample_clock 1)
          (session_in ''final_decision'' 50000 57499 60000 (ascii ''Yes, fine'')) = Inr r
       \<and> res_is_complete r = Some True
       \<and> negotiation_phase
           (apply_result (session_in ''final_decision'' 50000 57499 60000 (ascii ''Yes, fine'')) r)
         = ''completed''
       \<and> agreed_price
           (apply_result (session_in ''final_decision'' 50000 57499 60000 (ascii ''Yes, fine'')) r)
         = Some 57499)"
proof -
  let ?no = "session_in ''final_decision'' 50000 57499 60000 (ascii ''no thanks'')"
  let ?yes = "session_in ''final_decision'' 50000 57499 60000 (ascii ''Yes, fine'')"
  have declined: "\<not> (contains (lower (user_input ?no)) (ascii ''accept'')
      \<or> contains (lower (user_input ?no)) (ascii ''yes''))"
    by (simp add: session_in_def lower_def lower_char_def is_upper_def ascii_def)
  have accepted: "contains (lower (user_input ?yes)) (ascii ''accept'')
      \<or> contains (lower (user_input ?yes)) (ascii ''yes'')"
    by (simp add: session_in_def lower_def lower_char_def is_upper_def ascii_def)
  have phase: "negotiation_phase ?no = ''final_decision''"
    "negotiation_phase ?yes = ''final_decision''"
    by (simp_all add: session_in_def)
  from final_decision_outcomes
    [OF phase(1), where now = "sample_clock 1" and later = "sample_clock 1"
      and msg = "ascii ''hello''" and t = "sample_clock 0"] declined
  have first: "\<exists>r r'. process_negotiation_step (sample_clock 1) ?no = Inr r
       \<and> res_is_complete r = Some True
       \<and> negotiation_phase (apply_result ?no r) = ''failed''
       \<and> agreed_price (apply_result ?no r) = None
       \<and> process_negotiation_step (sample_clock 1)
           ((apply_result ?no r)
              \<lparr>user_input := ascii ''hello'', last_activity := sample_clock 0\<rparr>) = Inr r'
       \<and> negotiation_phase
           (apply_result
              ((apply_result ?no r)
                 \<lparr>user_input := ascii ''hello'', last_activity := sample_clock 0\<rparr>) r')
         = ''error''"
    by (simp only: if_False) blast
  from final_decision_outcomes
    [OF phase(2), where now = "sample_clock 1" and later = "sample_clock 1"
      and msg = "ascii ''hello''" and t = "sample_clock 0"] accepted
  have "\<exists>r. process_negotiation_step (sample_clock 1) ?yes = Inr r
       \<and> res_is_complete r = Some True
       \<and> negotiation_phase (apply_result ?yes r) = ''completed''
       \<and> agreed_price (apply_result ?yes r) = Some (brand_offer ?yes)"
    by (simp only: if_True) blast
  then have "\<exists>r. process_negotiation_step (sample_clock 1) ?yes = Inr r
       \<and> res_is_complete r = Some True
       \<and> negotiation_phase (apply_result ?yes r) = ''completed''
       \<and> agreed_price (apply_result ?yes r) = Some 57499"
    by (simp add: session_in_def)
  with first show ?thesis by blast
qed

text \<open>
  C9: \<^verbatim>\<open>budget\<close>, \<^verbatim>\<open>campaign_type\<close>, \<^verbatim>\<open>duration\<close> and
  \<^verbatim>\<open>session_id\<close> are set from the request when the session starts, and no engine
  step and no call of \<^verbatim>\<open>/respond\<close> changes them, in any session of the store,
  whether the call succeeds, fails or finds no session.
\<close>

theorem fixed_fields_kept:
  "fixed_fields (initial_state sid clock start)
     = (req_budget start, req_campaign_type start, req_duration start, sid)
   \<and> fixed_fields (apply_result state result) = fixed_fields state
   \<and> map_option (fixed_fields \<circ> sess_state)
        (fst (respond_to_negotiation clock active_sessions request) key)
     = map_option (fixed_fields \<circ> sess_state) (active_sessions key)"
  by (simp add: fixed_fields_def initial_state_def apply_result_def
      respond_to_negotiation_def Let_def split: option.splits sum.splits)

text \<open>
  C10: when the step raises during \<^verbatim>\<open>/respond\<close>, the stored session is the old
  one with \<^verbatim>\<open>user_input\<close> and \<^verbatim>\<open>last_activity\<close> overwritten and every
  other field as before; the reply is the service error that carries the exception, and
  the session's phase is not \<open>error\<close>.
\<close>

theorem raised_step_keeps_session:
  assumes "active_sessions (req_session_id request) = Some session"
    and "process_negotiation_step (clock 1)
           ((sess_state session)
              \<lparr>user_input := req_message request, last_activity := clock 0\<rparr>) = Inl e"
  shows "respond_to_negotiation clock active_sessions request
           = (active_sessions(req_session_id request \<mapsto>
                session\<lparr>sess_state := (sess_state session)
                  \<lparr>user_input := req_message request, last_activity := clock 0\<rparr>\<rparr>),
              ServerError e)
       \<and> negotiation_phase (sess_state session) \<noteq> ''error''"
proof -
  have "negotiation_phase ((sess_state session)
      \<lparr>user_input := req_message request, last_activity := clock 0\<rparr>) \<noteq> ''error''"
    using raising_phase [OF assms(2)] by auto
  with assms show ?thesis
    by (simp add: respond_to_negotiation_def Let_def)
qed

theorem raised_step_keeps_session_witness:
  "process_negotiation_step (sample_clock 1)
      (session_in ''brand_considering'' (2 ^ 1024) (2 ^ 1024) 5 (ascii ''and now?''))
     = Inl OverflowError
   \<and> snd (respond_to_negotiation sample_clock
           (store_of (session_in ''brand_considering'' (2 ^ 1024) (2 ^ 1024) 5 (ascii ''5'')))
           (snd (says (ascii ''and now?''))))
     = ServerError OverflowError
   \<and> map_option sess_state
        (fst (respond_to_negotiation sample_clock
           (store_of (session_in ''brand_considering'' (2 ^ 1024) (2 ^ 1024) 5 (ascii ''5'')))
           (snd (says (ascii ''and now?'')))) ''s1'')
     = Some (session_in ''brand_considering'' (2 ^ 1024) (2 ^ 1024) 5 (ascii ''and now?''))"
  using raised_step_keeps_session
    [where active_sessions = "store_of (session_in ''brand_considering'' (2 ^ 1024) (2 ^ 1024) 5 (ascii ''5''))"
      and request = "snd (says (ascii ''and now?''))"
      and session = "\<lparr>sess_state = session_in ''brand_considering'' (2 ^ 1024) (2 ^ 1024) 5 (ascii ''5''),
                       sess_created_at = sample_clock 0\<rparr>"
      and clock = sample_clock and e = OverflowError]
  by (simp add: store_of_def session_in_def says_def sample_clock_def
      process_negotiation_step_def brand_considers_counter_def int_times_1_15_overflow)

end
